theory Spec2Isabelle
  imports Complex_Main "HOL-Library.Word"
begin

unbundle bit_operations_syntax

section \<open>Stormwater retention: the raster algebra of \<^verbatim>\<open>natcap/invest/stormwater.py\<close>\<close>

text \<open>
  The pixel operations of the stormwater model work on the blocks that
  \<^verbatim>\<open>pygeoprocessing.raster_calculator\<close> hands them: arrays of one shape, one per input
  raster. A block is modelled as the list of its pixels in row-major order, so the pixel
  at position \<open>i\<close> of every input and of the output is the same pixel.

  Values of the floating-point rasters are modelled as real numbers: the formulas are the
  ones of the source, evaluated exactly; the rounding of 32-bit floats is outside this
  model, except in the search kernel, whose cells and size are decided by double-precision
  results and which is modelled with the rounding of doubles. Byte rasters hold
  \<open>8 word\<close>, land-cover and soil-group rasters hold integers.
  A raster without a nodata value reports \<^verbatim>\<open>None\<close>, so the nodata value of an input
  raster is an \<open>option\<close>.
\<close>

subsection \<open>Constants and errors\<close>

definition FLOAT_NODATA :: real where
  "FLOAT_NODATA = - 1"

definition UINT8_NODATA :: "8 word" where
  "UINT8_NODATA = 255"

datatype py_error = IndexError | ValueError | ZeroDivisionError | OverflowError

subsection \<open>The numpy operations the source uses\<close>

text \<open>
  \<^verbatim>\<open>numpy.isclose(a, b)\<close> with its default tolerances \<^verbatim>\<open>rtol=1e-05\<close>,
  \<^verbatim>\<open>atol=1e-08\<close>: \<open>\<bar>a - b\<bar> \<le> atol + rtol * \<bar>b\<bar>\<close>.
\<close>

definition isclose :: "real \<Rightarrow> real \<Rightarrow> bool" where
  "isclose a b \<longleftrightarrow> \<bar>a - b\<bar> \<le> 1 / 100000000 + (1 / 100000) * \<bar>b\<bar>"

text \<open>Boolean-mask indexing \<^verbatim>\<open>xs[mask]\<close>: the elements where the mask is set, in order.\<close>

fun mask_select :: "'a list \<Rightarrow> bool list \<Rightarrow> 'a list" where
  "mask_select (x # xs) (m # ms) = (if m then x # mask_select xs ms else mask_select xs ms)"
| "mask_select _ _ = []"

text \<open>
  Boolean-mask assignment \<^verbatim>\<open>out[mask] = vals\<close>: the values go, in order, to the
  positions where the mask is set. Every use in the source has a mask of the shape of
  \<open>out\<close> and as many values as the mask selects (numpy raises otherwise); the last
  equation is never reached from there.
\<close>

fun mask_assign :: "'a list \<Rightarrow> bool list \<Rightarrow> 'a list \<Rightarrow> 'a list" where
  "mask_assign (x # xs) (True # ms) (v # vs) = v # mask_assign xs ms vs"
| "mask_assign (x # xs) (False # ms) vs = x # mask_assign xs ms vs"
| "mask_assign xs _ _ = xs"

text \<open>
  \<^verbatim>\<open>numpy.digitize(x, bins, right=True)\<close> for ascending bins: the index \<open>i\<close> with
  \<open>bins[i-1] < x \<le> bins[i]\<close>, which is the number of leading bins below \<open>x\<close>; it is
  \<open>len(bins)\<close> when \<open>x\<close> is above every bin. The bins are always the sorted codes of
  the biophysical table, \<^verbatim>\<open>sorted(biophysical_dict)\<close>, which are strictly ascending.
\<close>

definition digitize_right :: "int \<Rightarrow> int list \<Rightarrow> nat" where
  "digitize_right x bins = length (takeWhile (\<lambda>b. b < x) bins)"

text \<open>
  An index into an axis of length \<open>n\<close>: numpy counts a negative index from the end and
  raises \<^verbatim>\<open>IndexError\<close> outside \<open>[-n, n)\<close>.
\<close>

definition np_index :: "nat \<Rightarrow> int \<Rightarrow> nat option" where
  "np_index n i =
     (if 0 \<le> i \<and> i < int n then Some (nat i)
      else if - int n \<le> i \<and> i < 0 then Some (nat (i + int n))
      else None)"

text \<open>Indexing with integer arrays: \<^verbatim>\<open>arr[idx]\<close> and \<^verbatim>\<open>arr[rows, cols]\<close>.\<close>

definition get1 :: "'a list \<Rightarrow> nat \<Rightarrow> 'a option" where
  "get1 arr i = (case np_index (length arr) (int i) of None \<Rightarrow> None | Some i' \<Rightarrow> Some (arr ! i'))"

definition get2 :: "'a list list \<Rightarrow> nat \<times> int \<Rightarrow> 'a option" where
  "get2 arr rc =
     (case np_index (length arr) (int (fst rc)) of
        None \<Rightarrow> None
      | Some r \<Rightarrow>
          (case np_index (length (arr ! r)) (snd rc) of
             None \<Rightarrow> None
           | Some c \<Rightarrow> Some (arr ! r ! c)))"

definition take1 :: "'a list \<Rightarrow> nat list \<Rightarrow> py_error + 'a list" where
  "take1 arr idx =
     (case those (map (get1 arr) idx) of None \<Rightarrow> Inl IndexError | Some vs \<Rightarrow> Inr vs)"

definition take2 :: "'a list list \<Rightarrow> nat list \<Rightarrow> int list \<Rightarrow> py_error + 'a list" where
  "take2 arr rows cols =
     (case those (map (get2 arr) (zip rows cols)) of
        None \<Rightarrow> Inl IndexError
      | Some vs \<Rightarrow> Inr vs)"

subsection \<open>Double-precision arithmetic\<close>







subsection \<open>\<^verbatim>\<open>lookup_ratios\<close>\<close>

text \<open>
  \<^verbatim>\<open>ratio_op\<close> is the closure that \<^verbatim>\<open>lookup_ratios\<close> passes to the raster
  calculator; the variables it captures are its first four arguments here.
\<close>

definition ratio_op ::
  "int option \<Rightarrow> int option \<Rightarrow> real list list \<Rightarrow> int list \<Rightarrow> int list \<Rightarrow> int list
   \<Rightarrow> py_error + real list" where
  "ratio_op lulc_nodata soil_group_nodata ratio_lookup sorted_lucodes lulc_array soil_group_array =
    (let output_ratio_array = replicate (length lulc_array) FLOAT_NODATA;
         valid_mask = map2 (\<and>) (map (\<lambda>x. Some x \<noteq> lulc_nodata) lulc_array)
                               (map (\<lambda>x. Some x \<noteq> soil_group_nodata) soil_group_array);
         lulc_index = map (\<lambda>x. digitize_right x sorted_lucodes)
                        (mask_select lulc_array valid_mask)
     in case take2 ratio_lookup lulc_index (mask_select soil_group_array valid_mask) of
          Inl e \<Rightarrow> Inl e
        | Inr vals \<Rightarrow> Inr (mask_assign output_ratio_array valid_mask vals))"

text \<open>
  \<^verbatim>\<open>lookup_ratios\<close> first inserts a column of zeros on the left of the table, so that
  the soil groups 1 to 4 are column indices. The rasters are read and written by the
  raster calculator; here the function takes the input blocks and returns the output
  block.
\<close>

definition lookup_ratios ::
  "int list \<Rightarrow> int option \<Rightarrow> int list \<Rightarrow> int option \<Rightarrow> real list list \<Rightarrow> int list
   \<Rightarrow> py_error + real list" where
  "lookup_ratios lulc_array lulc_nodata soil_group_array soil_group_nodata ratio_lookup sorted_lucodes =
    (let ratio_lookup = map (\<lambda>row. 0 # row) ratio_lookup
     in ratio_op lulc_nodata soil_group_nodata ratio_lookup sorted_lucodes
          lulc_array soil_group_array)"

subsection \<open>\<^verbatim>\<open>volume_op\<close>\<close>

text \<open>
  The test \<^verbatim>\<open>if precip_nodata:\<close> is Python truthiness: it fails for \<^verbatim>\<open>None\<close> and
  for a nodata value of zero.
\<close>

definition volume_op :: "real list \<Rightarrow> real list \<Rightarrow> real option \<Rightarrow> real \<Rightarrow> real list" where
  "volume_op ratio_array precip_array precip_nodata pixel_area =
    (let volume_array = replicate (length ratio_array) FLOAT_NODATA;
         valid_mask = map (\<lambda>x. \<not> isclose x FLOAT_NODATA) ratio_array;
         valid_mask =
           (case precip_nodata of
              None \<Rightarrow> valid_mask
            | Some nodata \<Rightarrow>
                if nodata \<noteq> 0
                then map2 (\<and>) valid_mask (map (\<lambda>x. \<not> isclose x nodata) precip_array)
                else valid_mask)
     in mask_assign volume_array valid_mask
          (map (\<lambda>v. v * pixel_area * (1 / 1000))
             (map2 (*) (mask_select precip_array valid_mask)
                       (mask_select ratio_array valid_mask))))"

subsection \<open>\<^verbatim>\<open>avoided_pollutant_load_op\<close>\<close>

definition avoided_pollutant_load_op ::
  "int list \<Rightarrow> int option \<Rightarrow> real list \<Rightarrow> int list \<Rightarrow> real list \<Rightarrow> py_error + real list" where
  "avoided_pollutant_load_op lulc_array lulc_nodata retention_volume_array sorted_lucodes emc_array =
    (let load_array = replicate (length lulc_array) FLOAT_NODATA;
         valid_mask = map2 (\<and>) (map (\<lambda>x. Some x \<noteq> lulc_nodata) lulc_array)
                        (map (\<lambda>x. \<not> isclose x FLOAT_NODATA) retention_volume_array);
         lulc_index = map (\<lambda>x. digitize_right x sorted_lucodes) lulc_array
     in case take1 emc_array lulc_index of
          Inl e \<Rightarrow> Inl e
        | Inr emc \<Rightarrow>
            Inr (mask_assign load_array valid_mask
                   (map2 (*) (map (\<lambda>c. c * (1 / 1000)) (mask_select emc valid_mask))
                             (mask_select retention_volume_array valid_mask))))"

subsection \<open>\<^verbatim>\<open>adjust_op\<close>\<close>

text \<open>
  The two flag arrays are bytes; \<^verbatim>\<open>(a | b).astype(bool)\<close> is true where the bitwise
  disjunction is not zero, and multiplying by the negated boolean multiplies by 1 or 0.
  The source assigns the adjustment factor twice, with the same value.
\<close>

definition adjust_op ::
  "real list \<Rightarrow> real list \<Rightarrow> 8 word list \<Rightarrow> 8 word list \<Rightarrow> real list" where
  "adjust_op ratio_array avg_ratio_array near_impervious_lulc_array near_road_array =
    (let adjusted_ratio_array = replicate (length ratio_array) FLOAT_NODATA;
         adjustment_factor_array = replicate (length ratio_array) FLOAT_NODATA;
         valid_mask =
           map2 (\<and>) (map2 (\<and>) (map2 (\<and>)
             (map (\<lambda>x. \<not> isclose x FLOAT_NODATA) ratio_array)
             (map (\<lambda>x. \<not> isclose x FLOAT_NODATA) avg_ratio_array))
             (map (\<lambda>x. x \<noteq> UINT8_NODATA) near_impervious_lulc_array))
             (map (\<lambda>x. x \<noteq> UINT8_NODATA) near_road_array);
         is_not_impervious =
           map (\<lambda>w. \<not> (w \<noteq> 0))
             (map2 (OR) (mask_select near_impervious_lulc_array valid_mask)
                        (mask_select near_road_array valid_mask));
         adjustment_factor_array = mask_assign adjustment_factor_array valid_mask
           (map2 (\<lambda>a b. a * of_bool b) (mask_select avg_ratio_array valid_mask)
              is_not_impervious);
         adjustment_factor_array = mask_assign adjustment_factor_array valid_mask
           (map2 (\<lambda>a b. a * of_bool b) (mask_select avg_ratio_array valid_mask)
              (map (\<lambda>w. \<not> (w \<noteq> 0))
                 (map2 (OR) (mask_select near_impervious_lulc_array valid_mask)
                            (mask_select near_road_array valid_mask))));
         adjusted_ratio_array = mask_assign adjusted_ratio_array valid_mask
           (map2 (+) (mask_select ratio_array valid_mask)
              (map2 (*) (map (\<lambda>r. 1 - r) (mask_select ratio_array valid_mask))
                 (mask_select adjustment_factor_array valid_mask)))
     in adjusted_ratio_array)"

text \<open>The entry of \<^verbatim>\<open>valid_mask\<close> in \<open>adjust_op\<close> at one pixel.\<close>

definition adjust_valid :: "real \<Rightarrow> real \<Rightarrow> 8 word \<Rightarrow> 8 word \<Rightarrow> bool" where
  "adjust_valid r a ni nr \<longleftrightarrow>
     \<not> isclose r FLOAT_NODATA \<and> \<not> isclose a FLOAT_NODATA \<and>
     ni \<noteq> UINT8_NODATA \<and> nr \<noteq> UINT8_NODATA"

subsection \<open>\<^verbatim>\<open>is_near\<close>\<close>

definition lte_threshold_op :: "real list \<Rightarrow> real \<Rightarrow> bool list" where
  "lte_threshold_op array threshold = map (\<lambda>d. d \<le> threshold) array"

text \<open>
  The distance transform is \<^verbatim>\<open>pygeoprocessing.distance_transform_edt\<close>, a parameter
  here. The raster calculator writes the boolean result to a byte raster, true as 1.
\<close>

definition is_near :: "('a \<Rightarrow> real list) \<Rightarrow> 'a \<Rightarrow> real \<Rightarrow> real list \<times> 8 word list" where
  "is_near distance_transform_edt input radius =
    (let distance = distance_transform_edt input
     in (distance, map of_bool (lte_threshold_op distance radius)))"

subsection \<open>\<^verbatim>\<open>make_search_kernel\<close>\<close>


subsection \<open>The data flow of \<^verbatim>\<open>execute\<close>\<close>

text \<open>
  A path is named by its key in the file registry, or is the per-pollutant output
  \<^verbatim>\<open>avoided_pollutant_load_<pollutant>\<close>. Of the arguments, the model keeps the ones
  that choose the rasters: the adjustment switch, the column names of the biophysical
  table (those of its first row), and the replacement cost (\<open>None\<close> when it is missing,
  \<^verbatim>\<open>None\<close> or empty).
\<close>

datatype path = Files string | AvoidedPollutantLoad string

record execute_args =
  adjust_retention_ratios :: bool
  biophysical_columns :: "string list"
  replacement_cost :: "real option"

definition final_retention_ratio_path :: "execute_args \<Rightarrow> path" where
  "final_retention_ratio_path args =
     (if adjust_retention_ratios args then Files ''adjusted_retention_ratio_path''
      else Files ''retention_ratio_path'')"

text \<open>The rasters that the retention volume task reads.\<close>

definition retention_volume_inputs :: "execute_args \<Rightarrow> path list" where
  "retention_volume_inputs args =
     [final_retention_ratio_path args, Files ''precipitation_aligned_path'']"

definition pollutants :: "execute_args \<Rightarrow> string list" where
  "pollutants args =
     map (drop 4) (filter (\<lambda>key. take 4 key = ''emc_'') (biophysical_columns args))"

text \<open>The list of (raster path, field name, operation) given to \<^verbatim>\<open>aggregate_results\<close>.\<close>

definition data_to_aggregate :: "execute_args \<Rightarrow> (path \<times> string \<times> string) list" where
  "data_to_aggregate args =
     [(Files ''retention_ratio_path'', ''RR_mean'', ''mean''),
      (Files ''retention_volume_path'', ''RV_sum'', ''sum'')]
     @ (if ''ir_a'' \<in> set (biophysical_columns args)
        then [(Files ''infiltration_ratio_path'', ''IR_mean'', ''mean''),
              (Files ''infiltration_volume_path'', ''IV_sum'', ''sum'')]
        else [])
     @ map (\<lambda>pollutant. (AvoidedPollutantLoad pollutant, ''avoided_'' @ pollutant, ''sum''))
         (pollutants args)
     @ (case replacement_cost args of
          None \<Rightarrow> []
        | Some _ \<Rightarrow> [(Files ''retention_value_path'', ''val_sum'', ''sum'')])"

text \<open>The raster aggregated into a field: the first entry of the list with that name.\<close>

definition aggregated_raster :: "execute_args \<Rightarrow> string \<Rightarrow> path option" where
  "aggregated_raster args field_id =
     map_of (map (\<lambda>(raster_path, field, op). (field, raster_path)) (data_to_aggregate args))
       field_id"

section \<open>Properties\<close>

subsection \<open>Masks and index arrays\<close>

lemma mask_select_map: "map f (mask_select xs ms) = mask_select (map f xs) ms"
  by (induction xs ms rule: mask_select.induct) auto

lemma mask_select_map2:
  "map2 f (mask_select xs ms) (mask_select ys ms) = mask_select (map2 f xs ys) ms"
proof (induction xs ms arbitrary: ys rule: mask_select.induct)
  case (1 x xs m ms)
  then show ?case by (cases ys) auto
qed auto

lemma length_mask_assign [simp]: "length (mask_assign out ms vs) = length out"
  by (induction out ms vs rule: mask_assign.induct) auto

lemma mask_assign_select_nth:
  "length ms = length out \<Longrightarrow> length ys = length out \<Longrightarrow> i < length out \<Longrightarrow>
   mask_assign out ms (mask_select ys ms) ! i = (if ms ! i then ys ! i else out ! i)"
proof (induction out arbitrary: ms ys i)
  case Nil
  then show ?case by simp
next
  case (Cons x out)
  then obtain m ms' y ys' where ms: "ms = m # ms'" and ys: "ys = y # ys'"
    by (metis length_Suc_conv)
  show ?case using Cons ms ys by (cases m; cases i) auto
qed

lemma mask_select_assign:
  "length ms = length out \<Longrightarrow> length ys = length out \<Longrightarrow>
   mask_select (mask_assign out ms (mask_select ys ms)) ms = mask_select ys ms"
proof (induction out arbitrary: ms ys)
  case Nil
  then show ?case by simp
next
  case (Cons x out)
  then obtain m ms' y ys' where ms: "ms = m # ms'" and ys: "ys = y # ys'"
    by (metis length_Suc_conv)
  show ?case using Cons ms ys by (cases m) auto
qed

lemma mask_select_zip:
  "zip (mask_select xs ms) (mask_select ys ms) = mask_select (zip xs ys) ms"
proof (induction xs ms arbitrary: ys rule: mask_select.induct)
  case (1 x xs m ms)
  then show ?case by (cases ys) auto
qed auto

lemma those_eq_None_iff: "those os = None \<longleftrightarrow> None \<in> set os"
  by (induction os) (auto split: option.splits)

lemma those_eq_Some_map_the: "those os = Some vs \<Longrightarrow> vs = map the os"
  by (induction os arbitrary: vs) (auto split: option.splits)

lemma those_mask_select_None_iff:
  "length ms = length os \<Longrightarrow>
   those (mask_select os ms) = None \<longleftrightarrow> (\<exists>i<length os. ms ! i \<and> os ! i = None)"
proof (induction os arbitrary: ms)
  case Nil
  then show ?case by simp
next
  case (Cons x os)
  then obtain m ms' where ms: "ms = m # ms'"
    by (metis length_Suc_conv)
  with Cons have IH: "those (mask_select os ms') = None \<longleftrightarrow>
      (\<exists>i<length os. ms' ! i \<and> os ! i = None)"
    by simp
  show ?case
    unfolding ms using IH by (cases m; cases x) (simp_all add: Ex_less_Suc2)
qed

lemma those_mask_select_Some:
  "those (mask_select os ms) = Some vs \<Longrightarrow> vs = mask_select (map the os) ms"
  by (drule those_eq_Some_map_the) (simp add: mask_select_map)

subsection \<open>The ratio adjustment\<close>

lemma word_or_eq_0_iff: "(a OR b) = 0 \<longleftrightarrow> a = 0 \<and> b = (0 :: 8 word)"
  by (auto simp: bit_eq_iff bit_or_iff)

lemma isclose_refl: "isclose x x"
  by (simp add: isclose_def)

text \<open>What \<open>adjust_op\<close> writes at one pixel.\<close>

lemma adjust_op_nth:
  assumes len: "length avg = length ratio" "length ni = length ratio" "length nr = length ratio"
    and i: "i < length ratio"
  shows "adjust_op ratio avg ni nr ! i =
     (if adjust_valid (ratio ! i) (avg ! i) (ni ! i) (nr ! i)
      then ratio ! i + (1 - ratio ! i) * (if ni ! i = 0 \<and> nr ! i = 0 then avg ! i else 0)
      else FLOAT_NODATA)"
proof -
  define vm where "vm = map2 (\<and>) (map2 (\<and>) (map2 (\<and>)
             (map (\<lambda>x. \<not> isclose x FLOAT_NODATA) ratio)
             (map (\<lambda>x. \<not> isclose x FLOAT_NODATA) avg))
             (map (\<lambda>x. x \<noteq> UINT8_NODATA) ni))
             (map (\<lambda>x. x \<noteq> UINT8_NODATA) nr)"
  define n where "n = length ratio"
  have lvm: "length vm = n" using len by (simp add: vm_def n_def)
  have vmi: "vm ! i = adjust_valid (ratio ! i) (avg ! i) (ni ! i) (nr ! i)"
    using len i by (simp add: vm_def adjust_valid_def)
  define fac where
    "fac = map2 (\<lambda>a b. a * of_bool b) avg (map (\<lambda>w. \<not> (w \<noteq> 0)) (map2 (OR) ni nr))"
  have lfac: "length fac = n" using len by (simp add: fac_def n_def)
  have fac_sel: "map2 (\<lambda>a b. a * of_bool b) (mask_select avg vm)
              (map (\<lambda>w. \<not> (w \<noteq> 0)) (map2 (OR) (mask_select ni vm) (mask_select nr vm)))
        = mask_select fac vm"
    by (simp only: mask_select_map2 mask_select_map fac_def)
  define res where "res = map2 (+) ratio (map2 (*) (map (\<lambda>r. 1 - r) ratio) fac)"
  have lres: "length res = n" using len lfac by (simp add: res_def n_def)
  have msa: "mask_select (mask_assign (mask_assign (replicate n FLOAT_NODATA) vm
                 (mask_select fac vm)) vm (mask_select fac vm)) vm = mask_select fac vm"
    by (rule mask_select_assign) (simp_all add: lvm lfac)
  have eq: "adjust_op ratio avg ni nr =
              mask_assign (replicate n FLOAT_NODATA) vm (mask_select res vm)"
    unfolding adjust_op_def Let_def vm_def [symmetric] n_def [symmetric] fac_sel msa
    by (simp only: mask_select_map2 mask_select_map res_def)
  have faci: "fac ! i = (if ni ! i = 0 \<and> nr ! i = 0 then avg ! i else 0)"
    using len i by (simp add: fac_def word_or_eq_0_iff)
  have resi: "res ! i = ratio ! i + (1 - ratio ! i) * fac ! i"
    using len i lfac by (simp add: res_def n_def)
  have "adjust_op ratio avg ni nr ! i = (if vm ! i then res ! i else replicate n FLOAT_NODATA ! i)"
    unfolding eq using i lvm lres by (intro mask_assign_select_nth) (simp_all add: n_def)
  then show ?thesis using i by (simp add: vmi resi faci n_def)
qed

lemma nonnegative_not_nodata: "0 \<le> x \<Longrightarrow> \<not> isclose x FLOAT_NODATA"
  by (simp add: isclose_def FLOAT_NODATA_def)

text \<open>
  C1. At a pixel where the four inputs pass the validity test of the source (the two
  ratios are not close to the float nodata value, the two flags are not the byte nodata
  value), the adjusted ratio is \<open>base + (1 - base) * factor\<close>, where the factor is the
  neighbourhood average when both flags are 0 and is 0 otherwise. At every other pixel
  the output is the float nodata value; in particular wherever one of the four inputs
  equals its nodata value. Ratios that are not negative always pass the test, so that on
  retention ratios the test is the comparison with the nodata value.
\<close>

theorem adjust_op_formula_and_nodata:
  assumes "length avg_ratio_array = length ratio_array"
    and "length near_impervious_lulc_array = length ratio_array"
    and "length near_road_array = length ratio_array"
    and "i < length ratio_array"
  shows "(adjust_valid (ratio_array ! i) (avg_ratio_array ! i)
            (near_impervious_lulc_array ! i) (near_road_array ! i) \<longrightarrow>
          adjust_op ratio_array avg_ratio_array near_impervious_lulc_array near_road_array ! i =
            ratio_array ! i + (1 - ratio_array ! i) *
              (if near_impervious_lulc_array ! i = 0 \<and> near_road_array ! i = 0
               then avg_ratio_array ! i else 0))
       \<and> (\<not> adjust_valid (ratio_array ! i) (avg_ratio_array ! i)
            (near_impervious_lulc_array ! i) (near_road_array ! i) \<longrightarrow>
          adjust_op ratio_array avg_ratio_array near_impervious_lulc_array near_road_array ! i =
            FLOAT_NODATA)
       \<and> (ratio_array ! i = FLOAT_NODATA \<or> avg_ratio_array ! i = FLOAT_NODATA \<or>
          near_impervious_lulc_array ! i = UINT8_NODATA \<or> near_road_array ! i = UINT8_NODATA \<longrightarrow>
          adjust_op ratio_array avg_ratio_array near_impervious_lulc_array near_road_array ! i =
            FLOAT_NODATA)
       \<and> (0 \<le> ratio_array ! i \<and> 0 \<le> avg_ratio_array ! i \<and>
          near_impervious_lulc_array ! i \<noteq> UINT8_NODATA \<and> near_road_array ! i \<noteq> UINT8_NODATA \<longrightarrow>
          adjust_valid (ratio_array ! i) (avg_ratio_array ! i)
            (near_impervious_lulc_array ! i) (near_road_array ! i))"
proof -
  have "ratio_array ! i = FLOAT_NODATA \<or> avg_ratio_array ! i = FLOAT_NODATA \<or>
        near_impervious_lulc_array ! i = UINT8_NODATA \<or> near_road_array ! i = UINT8_NODATA \<Longrightarrow>
        \<not> adjust_valid (ratio_array ! i) (avg_ratio_array ! i)
            (near_impervious_lulc_array ! i) (near_road_array ! i)"
    by (auto simp: adjust_valid_def isclose_refl)
  moreover have "0 \<le> ratio_array ! i \<and> 0 \<le> avg_ratio_array ! i \<and>
          near_impervious_lulc_array ! i \<noteq> UINT8_NODATA \<and> near_road_array ! i \<noteq> UINT8_NODATA \<Longrightarrow>
          adjust_valid (ratio_array ! i) (avg_ratio_array ! i)
            (near_impervious_lulc_array ! i) (near_road_array ! i)"
    by (simp add: adjust_valid_def nonnegative_not_nodata)
  ultimately show ?thesis
    using adjust_op_nth [OF assms] by auto
qed

theorem adjust_op_formula_and_nodata_witness:
  "adjust_op [1 / 2, - 1, 1 / 5, 1 / 4] [2 / 5, 3 / 10, 1 / 5, 1 / 2] [0, 0, 1, 255] [0, 0, 0, 0] ! 0
     = 7 / 10
   \<and> adjust_op [1 / 2, - 1, 1 / 5, 1 / 4] [2 / 5, 3 / 10, 1 / 5, 1 / 2] [0, 0, 1, 255] [0, 0, 0, 0] ! 1
     = FLOAT_NODATA
   \<and> adjust_op [1 / 2, - 1, 1 / 5, 1 / 4] [2 / 5, 3 / 10, 1 / 5, 1 / 2] [0, 0, 1, 255] [0, 0, 0, 0] ! 2
     = 1 / 5
   \<and> adjust_op [1 / 2, - 1, 1 / 5, 1 / 4] [2 / 5, 3 / 10, 1 / 5, 1 / 2] [0, 0, 1, 255] [0, 0, 0, 0] ! 3
     = FLOAT_NODATA"
  using
    adjust_op_formula_and_nodata [of "[2 / 5, 3 / 10, 1 / 5, 1 / 2]" "[1 / 2, - 1, 1 / 5, 1 / 4]"
      "[0, 0, 1, 255]" "[0, 0, 0, 0]" 0]
    adjust_op_formula_and_nodata [of "[2 / 5, 3 / 10, 1 / 5, 1 / 2]" "[1 / 2, - 1, 1 / 5, 1 / 4]"
      "[0, 0, 1, 255]" "[0, 0, 0, 0]" 1]
    adjust_op_formula_and_nodata [of "[2 / 5, 3 / 10, 1 / 5, 1 / 2]" "[1 / 2, - 1, 1 / 5, 1 / 4]"
      "[0, 0, 1, 255]" "[0, 0, 0, 0]" 2]
    adjust_op_formula_and_nodata [of "[2 / 5, 3 / 10, 1 / 5, 1 / 2]" "[1 / 2, - 1, 1 / 5, 1 / 4]"
      "[0, 0, 1, 255]" "[0, 0, 0, 0]" 3]
  by (simp add: adjust_valid_def isclose_def FLOAT_NODATA_def UINT8_NODATA_def)

text \<open>
  C3. At a valid pixel whose base ratio is in \<open>[0, 1]\<close> and whose adjustment factor (the
  neighbourhood average, or 0 next to a connected impervious surface or a road) is in
  \<open>[0, 1]\<close>, the adjusted ratio is at least the base ratio and at most 1.
\<close>

theorem adjust_op_monotonic_blend:
  assumes "length avg_ratio_array = length ratio_array"
    and "length near_impervious_lulc_array = length ratio_array"
    and "length near_road_array = length ratio_array"
    and "i < length ratio_array"
    and "adjust_valid (ratio_array ! i) (avg_ratio_array ! i)
           (near_impervious_lulc_array ! i) (near_road_array ! i)"
    and "0 \<le> ratio_array ! i" and "ratio_array ! i \<le> 1"
    and "0 \<le> (if near_impervious_lulc_array ! i = 0 \<and> near_road_array ! i = 0
               then avg_ratio_array ! i else 0)"
    and "(if near_impervious_lulc_array ! i = 0 \<and> near_road_array ! i = 0
          then avg_ratio_array ! i else 0) \<le> 1"
  shows "ratio_array ! i \<le>
           adjust_op ratio_array avg_ratio_array near_impervious_lulc_array near_road_array ! i
       \<and> adjust_op ratio_array avg_ratio_array near_impervious_lulc_array near_road_array ! i
           \<le> 1"
proof -
  define b where "b = ratio_array ! i"
  define f where "f = (if near_impervious_lulc_array ! i = 0 \<and> near_road_array ! i = 0
                       then avg_ratio_array ! i else 0)"
  have out: "adjust_op ratio_array avg_ratio_array near_impervious_lulc_array near_road_array ! i
               = b + (1 - b) * f"
    using adjust_op_nth [OF assms(1-4)] assms(5) by (simp add: b_def f_def)
  have b: "0 \<le> b" "b \<le> 1" and f: "0 \<le> f" "f \<le> 1"
    using assms(6-9) by (simp_all add: b_def f_def)
  have lower: "0 \<le> (1 - b) * f"
    using b f by simp
  have "(1 - b) * f \<le> (1 - b) * 1"
    using b f by (intro mult_left_mono) simp_all
  then have upper: "b + (1 - b) * f \<le> 1"
    by simp
  show ?thesis
    unfolding out b_def [symmetric] using lower upper by simp
qed

theorem adjust_op_monotonic_blend_witness:
  "(1 / 2 :: real) \<le> adjust_op [1 / 2, 1 / 5] [2 / 5, 1 / 5] [0, 1] [0, 0] ! 0
   \<and> adjust_op [1 / 2, 1 / 5] [2 / 5, 1 / 5] [0, 1] [0, 0] ! 0 \<le> 1
   \<and> (1 / 5 :: real) \<le> adjust_op [1 / 2, 1 / 5] [2 / 5, 1 / 5] [0, 1] [0, 0] ! 1
   \<and> adjust_op [1 / 2, 1 / 5] [2 / 5, 1 / 5] [0, 1] [0, 0] ! 1 \<le> 1"
  using
    adjust_op_monotonic_blend [of "[2 / 5, 1 / 5]" "[1 / 2, 1 / 5]" "[0, 1]" "[0, 0]" 0]
    adjust_op_monotonic_blend [of "[2 / 5, 1 / 5]" "[1 / 2, 1 / 5]" "[0, 1]" "[0, 0]" 1]
  by (simp add: adjust_valid_def isclose_def FLOAT_NODATA_def UINT8_NODATA_def)

subsection \<open>Volumes\<close>

text \<open>What \<open>volume_op\<close> writes at one pixel.\<close>

lemma volume_op_nth:
  assumes len: "length precip = length ratio" and i: "i < length ratio"
  shows "volume_op ratio precip precip_nodata pixel_area ! i =
     (if \<not> isclose (ratio ! i) FLOAT_NODATA \<and>
         (case precip_nodata of None \<Rightarrow> True
          | Some nodata \<Rightarrow> nodata = 0 \<or> \<not> isclose (precip ! i) nodata)
      then precip ! i * ratio ! i * pixel_area * (1 / 1000)
      else FLOAT_NODATA)"
proof -
  define vm where "vm =
    (case precip_nodata of
       None \<Rightarrow> map (\<lambda>x. \<not> isclose x FLOAT_NODATA) ratio
     | Some nodata \<Rightarrow>
         if nodata \<noteq> 0
         then map2 (\<and>) (map (\<lambda>x. \<not> isclose x FLOAT_NODATA) ratio)
                (map (\<lambda>x. \<not> isclose x nodata) precip)
         else map (\<lambda>x. \<not> isclose x FLOAT_NODATA) ratio)"
  define res where "res = map (\<lambda>v. v * pixel_area * (1 / 1000)) (map2 (*) precip ratio)"
  have lvm: "length vm = length ratio"
    using len by (simp add: vm_def split: option.splits)
  have lres: "length res = length ratio"
    using len by (simp add: res_def)
  have vmi: "vm ! i \<longleftrightarrow> \<not> isclose (ratio ! i) FLOAT_NODATA \<and>
         (case precip_nodata of None \<Rightarrow> True
          | Some nodata \<Rightarrow> nodata = 0 \<or> \<not> isclose (precip ! i) nodata)"
    using len i by (auto simp: vm_def split: option.splits)
  have resi: "res ! i = precip ! i * ratio ! i * pixel_area * (1 / 1000)"
    using len i by (simp add: res_def)
  have eq: "volume_op ratio precip precip_nodata pixel_area =
              mask_assign (replicate (length ratio) FLOAT_NODATA) vm (mask_select res vm)"
    unfolding volume_op_def Let_def vm_def [symmetric]
    by (simp only: mask_select_map2 mask_select_map res_def)
  have "volume_op ratio precip precip_nodata pixel_area ! i =
          (if vm ! i then res ! i else replicate (length ratio) FLOAT_NODATA ! i)"
    unfolding eq using i lvm lres by (intro mask_assign_select_nth) simp_all
  then show ?thesis
    using i vmi resi by simp
qed

text \<open>
  C2. The volume is \<open>precipitation * ratio * pixel_area * 0.001\<close> where both operands
  are valid (lemma \<open>volume_op_nth\<close>), but the precipitation mask is skipped when the
  nodata value of the precipitation raster is 0: the test \<^verbatim>\<open>if precip_nodata:\<close> is
  false for 0, as it is for \<^verbatim>\<open>None\<close>. With a nodata value of 0, a precipitation
  pixel that holds 0 gets the volume 0 and not the float nodata value.
\<close>

theorem volume_op_zero_precip_nodata:
  "volume_op [1 / 2] [0] (Some 0) 400 ! 0 = 0
   \<and> volume_op [1 / 2] [0] (Some 0) 400 ! 0 \<noteq> FLOAT_NODATA"
  by (simp add: volume_op_def isclose_def FLOAT_NODATA_def)

subsection \<open>The proximity threshold\<close>

text \<open>
  C9. At every pixel of the distance field the thresholded raster holds 1 when the
  distance is at most the radius and 0 otherwise: a pixel at exactly the radius is near,
  a pixel beyond it is not.
\<close>

theorem lte_threshold_boundary:
  assumes "i < length (distance_transform_edt input)"
  shows "fst (is_near distance_transform_edt input radius) = distance_transform_edt input
       \<and> snd (is_near distance_transform_edt input radius) ! i =
           (if distance_transform_edt input ! i \<le> radius then 1 else 0)
       \<and> (distance_transform_edt input ! i = radius \<longrightarrow>
            snd (is_near distance_transform_edt input radius) ! i = 1)
       \<and> (radius < distance_transform_edt input ! i \<longrightarrow>
            snd (is_near distance_transform_edt input radius) ! i = 0)"
  using assms by (simp add: is_near_def lte_threshold_op_def Let_def)

theorem lte_threshold_boundary_witness:
  "snd (is_near (\<lambda>x. x) [0, 1, 2, 5 / 2] 2) ! 2 = 1
   \<and> snd (is_near (\<lambda>x. x) [0, 1, 2, 5 / 2] 2) ! 3 = 0"
  using lte_threshold_boundary [of 2 "\<lambda>x. x" "[0, 1, 2, 5 / 2]" 2]
    lte_threshold_boundary [of 3 "\<lambda>x. x" "[0, 1, 2, 5 / 2]" 2]
  by simp

subsection \<open>Rounding to a double\<close>

































subsection \<open>The search kernel\<close>










subsection \<open>The rasters that are aggregated\<close>

text \<open>
  C4. With the adjustment enabled, the retention volume is computed from the adjusted
  retention ratio raster (the final retention ratio path), but the raster aggregated into
  the field \<open>RR_mean\<close> is the base retention ratio raster.
\<close>

theorem execute_aggregates_unadjusted_ratio:
  "aggregated_raster
     \<lparr>adjust_retention_ratios = True,
      biophysical_columns = [''lucode'', ''rc_a'', ''rc_b'', ''rc_c'', ''rc_d'', ''is_impervious''],
      replacement_cost = None\<rparr> ''RR_mean'' = Some (Files ''retention_ratio_path'')
   \<and> final_retention_ratio_path
     \<lparr>adjust_retention_ratios = True,
      biophysical_columns = [''lucode'', ''rc_a'', ''rc_b'', ''rc_c'', ''rc_d'', ''is_impervious''],
      replacement_cost = None\<rparr> = Files ''adjusted_retention_ratio_path''
   \<and> retention_volume_inputs
     \<lparr>adjust_retention_ratios = True,
      biophysical_columns = [''lucode'', ''rc_a'', ''rc_b'', ''rc_c'', ''rc_d'', ''is_impervious''],
      replacement_cost = None\<rparr> =
       [Files ''adjusted_retention_ratio_path'', Files ''precipitation_aligned_path'']"
  by (simp add: aggregated_raster_def data_to_aggregate_def final_retention_ratio_path_def
      retention_volume_inputs_def pollutants_def)

subsection \<open>Binning land-cover codes\<close>

lemma digitize_right_above:
  assumes "\<forall>c\<in>set bins. c < x"
  shows "digitize_right x bins = length bins"
proof -
  have "takeWhile (\<lambda>b. b < x) bins = bins"
    using assms by simp
  then show ?thesis
    unfolding digitize_right_def by (rule arg_cong)
qed

lemma digitize_right_first:
  assumes "\<exists>c\<in>set bins. x \<le> c"
  shows "digitize_right x bins < length bins"
    and "x \<le> bins ! digitize_right x bins"
    and "k < digitize_right x bins \<Longrightarrow> bins ! k < x"
proof -
  from assms obtain c where "c \<in> set bins" "\<not> c < x"
    by (auto simp: not_less)
  then have "takeWhile (\<lambda>b. b < x) bins \<noteq> bins"
    by auto
  then show lt: "digitize_right x bins < length bins"
    unfolding digitize_right_def
    by (metis length_takeWhile_le le_neq_implies_less takeWhile_eq_take take_all_iff order_refl)
  show "x \<le> bins ! digitize_right x bins"
    using nth_length_takeWhile [of "\<lambda>b. b < x" bins] lt
    by (simp add: digitize_right_def)
  show "bins ! k < x" if "k < digitize_right x bins"
    using that takeWhile_nth [of k "\<lambda>b. b < x" bins]
      nth_mem [of k "takeWhile (\<lambda>b. b < x) bins"] set_takeWhileD
    unfolding digitize_right_def by metis
qed

lemma digitize_right_exact:
  assumes "sorted_wrt (<) bins" and "j < length bins"
  shows "digitize_right (bins ! j) bins = j"
proof -
  have "takeWhile (\<lambda>b. b < bins ! j) bins = take j bins"
  proof (rule takeWhile_eq_take_P_nth)
    show "bins ! i < bins ! j" if "i < j" "i < length bins" for i
      using assms that by (simp add: sorted_wrt_nth_less)
    show "\<not> bins ! j < bins ! j" by simp
  qed
  then show ?thesis
    using assms by (simp add: digitize_right_def)
qed

lemma digitize_right_Min:
  assumes srt: "sorted_wrt (<) bins" and ex: "\<exists>c\<in>set bins. x \<le> c"
  shows "bins ! digitize_right x bins = Min {c \<in> set bins. x \<le> c}"
proof (rule Min_eqI [symmetric])
  let ?j = "digitize_right x bins"
  show "finite {c \<in> set bins. x \<le> c}" by simp
  show "bins ! ?j \<in> {c \<in> set bins. x \<le> c}"
    using digitize_right_first(1,2) [OF ex] by simp
  show "bins ! ?j \<le> c" if "c \<in> {c \<in> set bins. x \<le> c}" for c
  proof -
    from that obtain k where k: "k < length bins" "bins ! k = c" and xc: "x \<le> c"
      by (auto simp: in_set_conv_nth)
    have "\<not> k < ?j"
      using digitize_right_first(3) [OF ex, of k] k xc by auto
    then have "?j \<le> k" by simp
    then show ?thesis
      using srt k sorted_wrt_nth_less [of "(<)" bins ?j k] by (cases "?j = k") auto
  qed
qed

lemma get2_zero_column:
  assumes "r < length tbl" and "length (tbl ! r) = 4" and "1 \<le> s" and "s \<le> 4"
  shows "get2 (map (\<lambda>row. 0 # row) tbl) (r, s) = Some (tbl ! r ! nat (s - 1))"
proof -
  have "nat s = Suc (nat (s - 1))"
    using assms by simp
  then show ?thesis
    using assms by (simp add: get2_def np_index_def)
qed

lemma get2_row_past_end: "length tbl \<le> r \<Longrightarrow> get2 tbl (r, s) = None"
  by (simp add: get2_def np_index_def)

lemma get1_past_end: "length arr \<le> i \<Longrightarrow> get1 arr i = None"
  by (simp add: get1_def np_index_def)

subsection \<open>The ratio lookup\<close>

lemma ratio_op_unfold:
  "ratio_op lulc_nd soil_nd tbl codes lulc soil =
     (case those (mask_select
              (map (get2 tbl) (zip (map (\<lambda>x. digitize_right x codes) lulc) soil))
              (map2 (\<and>) (map (\<lambda>x. Some x \<noteq> lulc_nd) lulc) (map (\<lambda>x. Some x \<noteq> soil_nd) soil))) of
        None \<Rightarrow> Inl IndexError
      | Some vs \<Rightarrow>
          Inr (mask_assign (replicate (length lulc) FLOAT_NODATA)
                 (map2 (\<and>) (map (\<lambda>x. Some x \<noteq> lulc_nd) lulc) (map (\<lambda>x. Some x \<noteq> soil_nd) soil)) vs))"
  unfolding ratio_op_def Let_def take2_def
  by (simp only: mask_select_map mask_select_zip split: option.splits) simp

lemma ratio_op_IndexError:
  assumes len: "length soil = length lulc" and i: "i < length lulc"
    and valid: "Some (lulc ! i) \<noteq> lulc_nd" "Some (soil ! i) \<noteq> soil_nd"
    and bad: "get2 tbl (digitize_right (lulc ! i) codes, soil ! i) = None"
  shows "ratio_op lulc_nd soil_nd tbl codes lulc soil = Inl IndexError"
proof -
  let ?os = "map (get2 tbl) (zip (map (\<lambda>x. digitize_right x codes) lulc) soil)"
  let ?vm = "map2 (\<and>) (map (\<lambda>x. Some x \<noteq> lulc_nd) lulc) (map (\<lambda>x. Some x \<noteq> soil_nd) soil)"
  have l: "length ?vm = length ?os" using len by simp
  have "?vm ! i \<and> ?os ! i = None"
    using len i valid bad by simp
  then have "those (mask_select ?os ?vm) = None"
    unfolding those_mask_select_None_iff [OF l] using i len by auto
  then show ?thesis
    unfolding ratio_op_unfold by simp
qed

lemma ratio_op_Inr:
  assumes len: "length soil = length lulc"
    and ok: "ratio_op lulc_nd soil_nd tbl codes lulc soil = Inr out"
  shows "length out = length lulc"
    and "i < length lulc \<Longrightarrow> Some (lulc ! i) \<noteq> lulc_nd \<Longrightarrow> Some (soil ! i) \<noteq> soil_nd \<Longrightarrow>
         get2 tbl (digitize_right (lulc ! i) codes, soil ! i) = Some (out ! i)"
    and "i < length lulc \<Longrightarrow> Some (lulc ! i) = lulc_nd \<or> Some (soil ! i) = soil_nd \<Longrightarrow>
         out ! i = FLOAT_NODATA"
proof -
  let ?os = "map (get2 tbl) (zip (map (\<lambda>x. digitize_right x codes) lulc) soil)"
  let ?vm = "map2 (\<and>) (map (\<lambda>x. Some x \<noteq> lulc_nd) lulc) (map (\<lambda>x. Some x \<noteq> soil_nd) soil)"
  let ?nd = "replicate (length lulc) FLOAT_NODATA"
  have l: "length ?vm = length ?os" using len by simp
  obtain vs where vs: "those (mask_select ?os ?vm) = Some vs"
    and out: "out = mask_assign ?nd ?vm vs"
    using ok unfolding ratio_op_unfold by (auto split: option.splits)
  have vs': "vs = mask_select (map the ?os) ?vm"
    using those_mask_select_Some [OF vs] .
  show "length out = length lulc"
    by (simp add: out)
  have nth: "out ! i = (if ?vm ! i then map the ?os ! i else ?nd ! i)" if "i < length lulc"
    unfolding out vs' using that len by (intro mask_assign_select_nth) simp_all
  show "get2 tbl (digitize_right (lulc ! i) codes, soil ! i) = Some (out ! i)"
    if i: "i < length lulc" and v: "Some (lulc ! i) \<noteq> lulc_nd" "Some (soil ! i) \<noteq> soil_nd"
  proof -
    have "\<not> (\<exists>j<length ?os. ?vm ! j \<and> ?os ! j = None)"
      using those_mask_select_None_iff [OF l] vs by simp
    then have "?os ! i \<noteq> None"
      using i v len by auto
    then show ?thesis
      using nth [OF i] i v len by auto
  qed
  show "out ! i = FLOAT_NODATA"
    if i: "i < length lulc" and v: "Some (lulc ! i) = lulc_nd \<or> Some (soil ! i) = soil_nd"
    using nth [OF i] i v len by auto
qed

lemma ratio_op_total:
  assumes len: "length soil = length lulc"
    and good: "\<And>i. i < length lulc \<Longrightarrow> Some (lulc ! i) \<noteq> lulc_nd \<Longrightarrow> Some (soil ! i) \<noteq> soil_nd \<Longrightarrow>
         get2 tbl (digitize_right (lulc ! i) codes, soil ! i) \<noteq> None"
  shows "\<exists>out. ratio_op lulc_nd soil_nd tbl codes lulc soil = Inr out"
proof -
  let ?os = "map (get2 tbl) (zip (map (\<lambda>x. digitize_right x codes) lulc) soil)"
  let ?vm = "map2 (\<and>) (map (\<lambda>x. Some x \<noteq> lulc_nd) lulc) (map (\<lambda>x. Some x \<noteq> soil_nd) soil)"
  have l: "length ?vm = length ?os" using len by simp
  have "\<not> (\<exists>j<length ?os. ?vm ! j \<and> ?os ! j = None)"
    using good len by auto
  then have "those (mask_select ?os ?vm) \<noteq> None"
    using those_mask_select_None_iff [OF l] by simp
  then show ?thesis
    unfolding ratio_op_unfold by (auto split: option.splits)
qed

lemma ratio_op_Inl:
  assumes len: "length soil = length lulc"
    and err: "ratio_op lulc_nd soil_nd tbl codes lulc soil = Inl e"
  shows "\<exists>k<length lulc. Some (lulc ! k) \<noteq> lulc_nd \<and> Some (soil ! k) \<noteq> soil_nd \<and>
           get2 tbl (digitize_right (lulc ! k) codes, soil ! k) = None"
proof (rule ccontr)
  assume neg: "\<not> ?thesis"
  have "\<exists>out. ratio_op lulc_nd soil_nd tbl codes lulc soil = Inr out"
  proof (rule ratio_op_total [OF len])
    fix i
    assume "i < length lulc" "Some (lulc ! i) \<noteq> lulc_nd" "Some (soil ! i) \<noteq> soil_nd"
    with neg show "get2 tbl (digitize_right (lulc ! i) codes, soil ! i) \<noteq> None"
      by auto
  qed
  with err show False by simp
qed

text \<open>
  C5, as amended. Let the codes of the table be strictly ascending, with one row of four
  ratios per code. On a block where every valid pixel has a soil group from 1 to 4 and a
  land-cover code that is not above every code of the table, the lookup returns a block,
  and at each valid pixel it holds the table entry in the column of the pixel's soil
  group and the row of the least code at or above the pixel's code: the pixel's own code
  when the table has it, the next code above it otherwise.
\<close>

theorem lookup_ratios_least_code_at_or_above:
  assumes srt: "sorted_wrt (<) sorted_lucodes"
    and rows: "length ratio_lookup = length sorted_lucodes"
    and cols: "\<forall>row\<in>set ratio_lookup. length row = 4"
    and len: "length soil_group_array = length lulc_array"
    and dom: "\<forall>k<length lulc_array.
        Some (lulc_array ! k) \<noteq> lulc_nodata \<and> Some (soil_group_array ! k) \<noteq> soil_group_nodata \<longrightarrow>
        (\<exists>c\<in>set sorted_lucodes. lulc_array ! k \<le> c) \<and>
        1 \<le> soil_group_array ! k \<and> soil_group_array ! k \<le> 4"
  shows "\<exists>out.
      lookup_ratios lulc_array lulc_nodata soil_group_array soil_group_nodata
        ratio_lookup sorted_lucodes = Inr out \<and>
      length out = length lulc_array \<and>
      (\<forall>i<length lulc_array.
         Some (lulc_array ! i) \<noteq> lulc_nodata \<and> Some (soil_group_array ! i) \<noteq> soil_group_nodata \<longrightarrow>
         (\<exists>j<length sorted_lucodes.
            sorted_lucodes ! j = Min {c \<in> set sorted_lucodes. lulc_array ! i \<le> c} \<and>
            (lulc_array ! i \<in> set sorted_lucodes \<longrightarrow> sorted_lucodes ! j = lulc_array ! i) \<and>
            out ! i = ratio_lookup ! j ! nat (soil_group_array ! i - 1)))"
proof -
  let ?tbl = "map (\<lambda>row. 0 # row) ratio_lookup"
  let ?d = "\<lambda>x. digitize_right x sorted_lucodes"
  have cell: "get2 ?tbl (?d (lulc_array ! i), soil_group_array ! i) =
                Some (ratio_lookup ! ?d (lulc_array ! i) ! nat (soil_group_array ! i - 1))"
    if "i < length lulc_array" "Some (lulc_array ! i) \<noteq> lulc_nodata"
      "Some (soil_group_array ! i) \<noteq> soil_group_nodata" for i
  proof -
    from dom that have ex: "\<exists>c\<in>set sorted_lucodes. lulc_array ! i \<le> c"
      and s: "1 \<le> soil_group_array ! i" "soil_group_array ! i \<le> 4"
      by auto
    have r: "?d (lulc_array ! i) < length ratio_lookup"
      using digitize_right_first(1) [OF ex] rows by simp
    then have "length (ratio_lookup ! ?d (lulc_array ! i)) = 4"
      using cols by simp
    then show ?thesis
      using s by (intro get2_zero_column [OF r])
  qed
  have "\<exists>out. ratio_op lulc_nodata soil_group_nodata ?tbl sorted_lucodes
          lulc_array soil_group_array = Inr out"
    using cell by (intro ratio_op_total [OF len]) simp
  then obtain out where out: "ratio_op lulc_nodata soil_group_nodata ?tbl sorted_lucodes
          lulc_array soil_group_array = Inr out" ..
  have "\<exists>j<length sorted_lucodes.
            sorted_lucodes ! j = Min {c \<in> set sorted_lucodes. lulc_array ! i \<le> c} \<and>
            (lulc_array ! i \<in> set sorted_lucodes \<longrightarrow> sorted_lucodes ! j = lulc_array ! i) \<and>
            out ! i = ratio_lookup ! j ! nat (soil_group_array ! i - 1)"
    if i: "i < length lulc_array" and v: "Some (lulc_array ! i) \<noteq> lulc_nodata"
      "Some (soil_group_array ! i) \<noteq> soil_group_nodata" for i
  proof -
    let ?j = "?d (lulc_array ! i)"
    from dom i v have ex: "\<exists>c\<in>set sorted_lucodes. lulc_array ! i \<le> c"
      by auto
    have "get2 ?tbl (?j, soil_group_array ! i) = Some (out ! i)"
      using ratio_op_Inr(2) [OF len out i v] .
    then have val: "out ! i = ratio_lookup ! ?j ! nat (soil_group_array ! i - 1)"
      using cell [OF i v] by simp
    have present: "sorted_lucodes ! ?j = lulc_array ! i" if "lulc_array ! i \<in> set sorted_lucodes"
    proof -
      from that obtain k where "k < length sorted_lucodes" "sorted_lucodes ! k = lulc_array ! i"
        by (auto simp: in_set_conv_nth)
      then show ?thesis
        using digitize_right_exact [OF srt, of k] by simp
    qed
    show ?thesis
      using digitize_right_first(1) [OF ex] digitize_right_Min [OF srt ex] val present
      by blast
  qed
  then show ?thesis
    using out ratio_op_Inr(1) [OF len out] by (auto simp: lookup_ratios_def)
qed

theorem lookup_ratios_least_code_at_or_above_witness:
  "(\<exists>out. lookup_ratios [1, 3, 255] (Some 255) [1, 2, 1] (Some 255)
            [[1 / 10, 2 / 10, 3 / 10, 4 / 10], [5 / 10, 6 / 10, 7 / 10, 8 / 10]] [1, 5] = Inr out
          \<and> length out = 3)
   \<and> lookup_ratios [1, 3, 255] (Some 255) [1, 2, 1] (Some 255)
        [[1 / 10, 2 / 10, 3 / 10, 4 / 10], [5 / 10, 6 / 10, 7 / 10, 8 / 10]] [1, 5]
      = Inr [1 / 10, 6 / 10, FLOAT_NODATA]"
proof -
  let ?lulc = "[1, 3, 255 :: int]" and ?soil = "[1, 2, 1 :: int]"
  let ?tbl = "[[1 / 10, 2 / 10, 3 / 10, 4 / 10], [5 / 10, 6 / 10, 7 / 10, 8 / 10 :: real]]"
  have srt: "sorted_wrt (<) [1, 5 :: int]" by simp
  have rows: "length ?tbl = length [1, 5 :: int]" by simp
  have cols: "\<forall>row\<in>set ?tbl. length row = 4" by simp
  have len: "length ?soil = length ?lulc" by simp
  have dom: "\<forall>k<length ?lulc.
        Some (?lulc ! k) \<noteq> Some 255 \<and> Some (?soil ! k) \<noteq> Some 255 \<longrightarrow>
        (\<exists>c\<in>set [1, 5 :: int]. ?lulc ! k \<le> c) \<and> 1 \<le> ?soil ! k \<and> ?soil ! k \<le> 4"
    by (simp add: All_less_Suc2 numeral_3_eq_3)
  obtain out where out: "lookup_ratios ?lulc (Some 255) ?soil (Some 255) ?tbl [1, 5] = Inr out"
      "length out = length ?lulc"
    using lookup_ratios_least_code_at_or_above [OF srt rows cols len dom] by blast
  have "lookup_ratios ?lulc (Some 255) ?soil (Some 255) ?tbl [1, 5]
          = Inr [1 / 10, 6 / 10, FLOAT_NODATA]"
    by (simp add: lookup_ratios_def ratio_op_def take2_def get2_def np_index_def
        digitize_right_def)
  with out show ?thesis by simp
qed

text \<open>
  The claim as worded also covers an absent code above the largest code of the table.
  There the lookup does not resolve to a neighbouring row: the index is past the end of
  the table.
\<close>

theorem lookup_ratios_code_above_table_fails:
  "lookup_ratios [3] (Some 255) [1] (Some 255)
     [[1 / 10, 2 / 10, 3 / 10, 4 / 10], [5 / 10, 6 / 10, 7 / 10, 8 / 10]] [1, 2]
   = Inl IndexError
   \<and> Some (3 :: int) \<noteq> Some 255 \<and> Some (1 :: int) \<noteq> Some 255 \<and> (3 :: int) \<notin> set [1, 2]"
  by (simp add: lookup_ratios_def ratio_op_def take2_def get2_def np_index_def
      digitize_right_def)

text \<open>
  C6. At a pixel whose land-cover value is the nodata value of the land-cover raster, or
  whose soil group is the nodata value of the soil-group raster, the output block holds
  the float nodata value. No table lookup is made for such a pixel: when the lookup
  raises instead of returning a block, it is for another pixel, a valid one whose indices
  are outside the table.
\<close>

theorem lookup_ratios_nodata_pixel:
  assumes "length soil_group_array = length lulc_array"
    and "i < length lulc_array"
    and "lulc_nodata = Some (lulc_array ! i) \<or> soil_group_nodata = Some (soil_group_array ! i)"
  shows "case lookup_ratios lulc_array lulc_nodata soil_group_array soil_group_nodata
                ratio_lookup sorted_lucodes of
           Inr out \<Rightarrow> length out = length lulc_array \<and> out ! i = FLOAT_NODATA
         | Inl e \<Rightarrow>
             \<exists>k<length lulc_array. k \<noteq> i \<and>
               Some (lulc_array ! k) \<noteq> lulc_nodata \<and>
               Some (soil_group_array ! k) \<noteq> soil_group_nodata \<and>
               get2 (map (\<lambda>row. 0 # row) ratio_lookup)
                 (digitize_right (lulc_array ! k) sorted_lucodes, soil_group_array ! k) = None"
proof (cases "lookup_ratios lulc_array lulc_nodata soil_group_array soil_group_nodata
                ratio_lookup sorted_lucodes")
  case (Inl e)
  then have "ratio_op lulc_nodata soil_group_nodata (map (\<lambda>row. 0 # row) ratio_lookup)
          sorted_lucodes lulc_array soil_group_array = Inl e"
    by (simp add: lookup_ratios_def)
  from ratio_op_Inl [OF assms(1) this] obtain k where k: "k < length lulc_array"
      "Some (lulc_array ! k) \<noteq> lulc_nodata" "Some (soil_group_array ! k) \<noteq> soil_group_nodata"
      "get2 (map (\<lambda>row. 0 # row) ratio_lookup)
         (digitize_right (lulc_array ! k) sorted_lucodes, soil_group_array ! k) = None"
    by blast
  moreover from k(2,3) assms(3) have "k \<noteq> i"
    by auto
  ultimately show ?thesis
    unfolding Inl sum.case by blast
next
  case (Inr out)
  then have run: "ratio_op lulc_nodata soil_group_nodata (map (\<lambda>row. 0 # row) ratio_lookup)
          sorted_lucodes lulc_array soil_group_array = Inr out"
    by (simp add: lookup_ratios_def)
  have "out ! i = FLOAT_NODATA"
    using ratio_op_Inr(3) [OF assms(1) run assms(2)] assms(3) by auto
  then show ?thesis
    unfolding Inr sum.case using ratio_op_Inr(1) [OF assms(1) run] by simp
qed

theorem lookup_ratios_nodata_pixel_witness:
  "lookup_ratios [1, 255, 2, 7] (Some 255) [1, 1, 9, 9] (Some 9)
     [[1 / 10, 2 / 10, 3 / 10, 4 / 10], [5 / 10, 6 / 10, 7 / 10, 8 / 10]] [1, 2]
     = Inr [1 / 10, - 1, - 1, - 1]
   \<and> [1 / 10, - 1, - 1, - 1] ! 3 = FLOAT_NODATA"
proof -
  let ?lulc = "[1, 255, 2, 7 :: int]" and ?soil = "[1, 1, 9, 9 :: int]"
  let ?tbl = "[[1 / 10, 2 / 10, 3 / 10, 4 / 10], [5 / 10, 6 / 10, 7 / 10, 8 / 10 :: real]]"
  let ?out = "[1 / 10, - 1, - 1, - 1 :: real]"
  have len: "length ?soil = length ?lulc" by simp
  have i: "3 < length ?lulc" by simp
  have nd: "Some 255 = Some (?lulc ! 3) \<or> Some 9 = Some (?soil ! 3)" by simp
  have run: "lookup_ratios ?lulc (Some 255) ?soil (Some 9) ?tbl [1, 2] = Inr ?out"
    by (simp add: lookup_ratios_def ratio_op_def take2_def get2_def np_index_def
        digitize_right_def FLOAT_NODATA_def)
  note t = lookup_ratios_nodata_pixel [OF len i nd, of ?tbl "[1, 2]"]
  have "length ?out = length ?lulc \<and> ?out ! 3 = FLOAT_NODATA"
    using t by (simp only: run sum.case)
  then have "?out ! 3 = FLOAT_NODATA"
    by (rule conjunct2)
  with run show ?thesis by (rule conjI)
qed

subsection \<open>Codes above the table\<close>

lemma avoided_pollutant_load_op_IndexError:
  assumes "i < length lulc"
    and "get1 emc (digitize_right (lulc ! i) codes) = None"
  shows "avoided_pollutant_load_op lulc lulc_nd vol codes emc = Inl IndexError"
proof -
  have "None \<in> set (map (get1 emc) (map (\<lambda>x. digitize_right x codes) lulc))"
    using assms by (force simp: in_set_conv_nth)
  then have "those (map (get1 emc) (map (\<lambda>x. digitize_right x codes) lulc)) = None"
    by (simp only: those_eq_None_iff)
  then show ?thesis
    by (simp add: avoided_pollutant_load_op_def take1_def)
qed

text \<open>
  C10. The table of ratios and the array of concentrations have one entry per code, as
  \<^verbatim>\<open>execute\<close> builds them. A land-cover value above every code of the table is
  binned to the length of the table, one past its last row. The ratio lookup then raises \<^verbatim>\<open>IndexError\<close> as soon
  as a valid pixel of the block carries such a value. The avoided pollutant load indexes
  the concentrations with the bins of all pixels before it applies the mask, so it raises
  as soon as any pixel of the block carries such a value, a nodata pixel included.
\<close>

theorem code_above_table_index_error:
  assumes "i < length lulc_array"
    and "\<forall>c\<in>set sorted_lucodes. c < lulc_array ! i"
  shows "(length ratio_lookup = length sorted_lucodes \<and>
          length soil_group_array = length lulc_array \<and>
          Some (lulc_array ! i) \<noteq> lulc_nodata \<and>
          Some (soil_group_array ! i) \<noteq> soil_group_nodata \<longrightarrow>
          lookup_ratios lulc_array lulc_nodata soil_group_array soil_group_nodata
            ratio_lookup sorted_lucodes = Inl IndexError)
       \<and> (length emc_array = length sorted_lucodes \<longrightarrow>
          avoided_pollutant_load_op lulc_array lulc_nodata retention_volume_array
            sorted_lucodes emc_array = Inl IndexError)"
proof -
  have d: "digitize_right (lulc_array ! i) sorted_lucodes = length sorted_lucodes"
    using assms(2) by (rule digitize_right_above)
  have "lookup_ratios lulc_array lulc_nodata soil_group_array soil_group_nodata
            ratio_lookup sorted_lucodes = Inl IndexError"
    if "length ratio_lookup = length sorted_lucodes"
      and len: "length soil_group_array = length lulc_array"
      and v: "Some (lulc_array ! i) \<noteq> lulc_nodata" "Some (soil_group_array ! i) \<noteq> soil_group_nodata"
  proof -
    have "get2 (map (\<lambda>row. 0 # row) ratio_lookup)
            (digitize_right (lulc_array ! i) sorted_lucodes, soil_group_array ! i) = None"
      using that(1) d by (intro get2_row_past_end) simp
    from ratio_op_IndexError [OF len assms(1) v this] show ?thesis
      by (simp add: lookup_ratios_def)
  qed
  moreover have "avoided_pollutant_load_op lulc_array lulc_nodata retention_volume_array
            sorted_lucodes emc_array = Inl IndexError"
    if "length emc_array = length sorted_lucodes"
  proof -
    have "get1 emc_array (digitize_right (lulc_array ! i) sorted_lucodes) = None"
      using that d by (intro get1_past_end) simp
    then show ?thesis
      by (rule avoided_pollutant_load_op_IndexError [OF assms(1)])
  qed
  ultimately show ?thesis by blast
qed

theorem code_above_table_index_error_witness:
  "lookup_ratios [1, 3] (Some 255) [1, 2] (Some 255)
     [[1 / 10, 2 / 10, 3 / 10, 4 / 10], [5 / 10, 6 / 10, 7 / 10, 8 / 10]] [1, 2]
     = Inl IndexError
   \<and> avoided_pollutant_load_op [1, 255] (Some 255) [12, - 1] [1, 2] [3, 4] = Inl IndexError"
proof -
  have a: "(1 :: nat) < length [1, 3 :: int]" "\<forall>c\<in>set [1, 2 :: int]. c < [1, 3] ! 1"
    by simp_all
  have b: "(1 :: nat) < length [1, 255 :: int]" "\<forall>c\<in>set [1, 2 :: int]. c < [1, 255] ! 1"
    by simp_all
  from code_above_table_index_error [OF a,
      where ratio_lookup = "[[1 / 10, 2 / 10, 3 / 10, 4 / 10], [5 / 10, 6 / 10, 7 / 10, 8 / 10]]"
        and soil_group_array = "[1, 2]" and lulc_nodata = "Some 255"
        and soil_group_nodata = "Some 255"]
  have "lookup_ratios [1, 3] (Some 255) [1, 2] (Some 255)
     [[1 / 10, 2 / 10, 3 / 10, 4 / 10], [5 / 10, 6 / 10, 7 / 10, 8 / 10]] [1, 2]
     = Inl IndexError"
    by simp
  moreover
  from code_above_table_index_error [OF b,
      where emc_array = "[3, 4]" and lulc_nodata = "Some 255"
        and retention_volume_array = "[12, - 1]"]
  have "avoided_pollutant_load_op [1, 255] (Some 255) [12, - 1] [1, 2] [3, 4] = Inl IndexError"
    by simp
  ultimately show ?thesis by simp
qed

end
